theory Spec2Isabelle
  imports Complex_Main "HOL-Library.Word" "HOL-Library.AList" "HOL-Library.Sublist"
begin

unbundle bit_operations_syntax

section \<open>Data model of the advertiser decoder\<close>

text \<open>
  The model follows \<^verbatim>\<open>messages/decoders/advertiser.py\<close>. A payload is a Python
  \<^verbatim>\<open>bytes\<close> object, here a list of 8-bit words; unpacking with the format code
  \<^verbatim>\<open>B\<close> turns each byte into an unbounded Python integer, here \<open>int\<close>.

  The RSS value \<^verbatim>\<open>values[-1] / 2 - 127\<close> is a Python float. For a byte the result
  is a multiple of one half between -127 and 0.5, which binary floating point
  represents exactly, so the rationals compute the same value.
\<close>

type_synonym byte = "8 word"

datatype error = Raise string

definition struct_error :: error where
  "struct_error = Raise ''struct.error''"

datatype pynum = PyInt int | PyFloat rat

record node =
  time :: "int option"
  rss :: "rat list"
  otap :: "int list"
  value_list :: "pynum list"

type_synonym adv_dict = "(int \<times> node) list"

record advertiser_message =
  data_payload :: "byte list"
  timestamp :: int
  adv :: adv_dict
  adv_type :: "int option"
  adv_reserved_field :: "int option"
  index :: "int option"

definition message_type_rss :: int where
  "message_type_rss = 2"

definition message_type_otap :: int where
  "message_type_otap = 3"

section \<open>Helpers of the repository that the decoder calls\<close>

text \<open>
  Modelled from the spec: \<^verbatim>\<open>tools.chunker\<close> (module \<^verbatim>\<open>tools/utils.py\<close>) is
  called by \<^verbatim>\<open>decode\<close> and is not among the sources at hand. The spec says that the
  body "is consumed in fixed chunks of address_width + 1 bytes" and that the last chunk
  may be shorter: the slices \<^verbatim>\<open>seq[pos:pos + size]\<close> for \<^verbatim>\<open>pos\<close> in steps of
  \<^verbatim>\<open>size\<close>. The decoder calls it with size 4 or 5 only; size 0 yields no chunk here.
\<close>

function chunker :: "'a list \<Rightarrow> nat \<Rightarrow> 'a list list" where
  "chunker seq sz =
     (if seq = [] \<or> sz = 0 then [] else take sz seq # chunker (drop sz seq) sz)"
  by pat_completeness auto
termination
  by (relation "measure (\<lambda>(seq, sz). length seq)") auto

declare chunker.simps [simp del]

text \<open>
  Modelled from the spec: \<^verbatim>\<open>GenericMessage.decode\<close>, the base class step that
  \<^verbatim>\<open>decode\<close> calls first, is not among the sources at hand. The spec gives the
  decoder no behaviour before the header is read, so the step leaves the message as it is.
\<close>

definition generic_decode :: "advertiser_message \<Rightarrow> advertiser_message" where
  "generic_decode self = self"

section \<open>The decoder\<close>

text \<open>
  \<^verbatim>\<open>struct.Struct("<B ... B").unpack(buf)\<close> with \<open>n\<close> format codes: the buffer must
  hold exactly \<open>n\<close> bytes, otherwise \<^verbatim>\<open>struct.error\<close> is raised.
\<close>

definition unpack :: "nat \<Rightarrow> byte list \<Rightarrow> error + int list" where
  "unpack n buf = (if length buf = n then Inr (map uint buf) else Inl struct_error)"

text \<open>Lines 112 to 116: the address from the unpacked values.\<close>

definition record_address :: "nat \<Rightarrow> int list \<Rightarrow> int" where
  "record_address address_len values =
     (let address = values ! 0;
          address = address OR push_bit 8 (values ! 1);
          address = address OR push_bit 16 (values ! 2)
      in if address_len = 4 then address OR push_bit 24 (values ! 3) else address)"

text \<open>
  Lines 118 to 127: the three locals \<^verbatim>\<open>rss\<close>, \<^verbatim>\<open>otap\<close> and \<^verbatim>\<open>value\<close>, set from
  the type of the frame and the last unpacked value.
\<close>

definition classify :: "int \<Rightarrow> int \<Rightarrow> rat option \<times> int option \<times> pynum" where
  "classify ty raw =
     (if ty = message_type_rss then
        (let r = of_int raw / 2 - 127 in (Some r, None, PyFloat r))
      else if ty = message_type_otap then (None, Some raw, PyInt raw)
      else (None, None, PyInt raw))"

definition new_node :: node where
  "new_node = \<lparr>time = None, rss = [], otap = [], value_list = []\<rparr>"

text \<open>
  Lines 136 to 141. The tests \<^verbatim>\<open>if rss:\<close> and \<^verbatim>\<open>elif otap:\<close> are Python truth
  tests: \<^verbatim>\<open>None\<close>, \<^verbatim>\<open>0.0\<close> and \<^verbatim>\<open>0\<close> are false.
\<close>

definition append_sample :: "rat option \<Rightarrow> int option \<Rightarrow> pynum \<Rightarrow> node \<Rightarrow> node" where
  "append_sample rss_v otap_v v n =
     (if rss_v \<noteq> None \<and> rss_v \<noteq> Some 0 then n\<lparr>rss := rss n @ [case rss_v of Some r \<Rightarrow> r | None \<Rightarrow> 0]\<rparr>
      else if otap_v \<noteq> None \<and> otap_v \<noteq> Some 0 then n\<lparr>otap := otap n @ [case otap_v of Some s \<Rightarrow> s | None \<Rightarrow> 0]\<rparr>
      else n\<lparr>value_list := value_list n @ [v]\<rparr>)"

text \<open>
  Lines 129 to 141: the dictionary \<^verbatim>\<open>apdu["adv"]\<close> keeps its keys in insertion
  order, as \<open>AList.update\<close> does: a new key goes to the end, a known key keeps its place.
\<close>

definition node_at :: "adv_dict \<Rightarrow> int \<Rightarrow> node" where
  "node_at d address = (case map_of d address of Some n \<Rightarrow> n | None \<Rightarrow> new_node)"

definition store_sample ::
  "int \<Rightarrow> int \<Rightarrow> rat option \<times> int option \<times> pynum \<Rightarrow> adv_dict \<Rightarrow> adv_dict" where
  "store_sample ts address c d =
     (case c of (rss_v, otap_v, v) \<Rightarrow>
        let d1 = (if map_of d address = None then AList.update address new_node d else d);
            d2 = AList.update address ((node_at d1 address)\<lparr>time := Some ts\<rparr>) d1
        in AList.update address (append_sample rss_v otap_v v (node_at d2 address)) d2)"

text \<open>Lines 106 to 141: the loop over the chunks.\<close>

fun decode_chunks ::
  "nat \<Rightarrow> int \<Rightarrow> int \<Rightarrow> adv_dict \<Rightarrow> byte list list \<Rightarrow> error + adv_dict" where
  "decode_chunks address_len ty ts d [] = Inr d"
| "decode_chunks address_len ty ts d (chunk # chunks) =
     (if length chunk < address_len + 1 then decode_chunks address_len ty ts d chunks
      else (case unpack (address_len + 1) chunk of
              Inl e \<Rightarrow> Inl e
            | Inr values \<Rightarrow>
                decode_chunks address_len ty ts
                  (store_sample ts (record_address address_len values)
                     (classify ty (last values)) d)
                  chunks))"

definition address_width :: "int \<Rightarrow> nat" where
  "address_width h0 = (if drop_bit 7 h0 = 1 then 4 else 3)"

definition decode :: "advertiser_message \<Rightarrow> error + advertiser_message" where
  "decode self0 =
     (let self = generic_decode self0 in
      case unpack 2 (take 2 (data_payload self)) of
        Inl e \<Rightarrow> Inl e
      | Inr header \<Rightarrow>
          let ty = (header ! 0) AND 0x7F;
              address_len = address_width (header ! 0);
              body = drop 2 (data_payload self)
          in (case decode_chunks address_len ty (timestamp self) (adv self)
                     (chunker body (address_len + 1)) of
                Inl e \<Rightarrow> Inl e
              | Inr d \<Rightarrow>
                  Inr (self\<lparr>adv_type := Some ty,
                            adv_reserved_field := Some (header ! 1),
                            adv := d\<rparr>)))"

section \<open>The message counter and the constructor\<close>

text \<open>
  \<^verbatim>\<open>message_counter\<close> is an attribute of the class, shared by all messages: it is
  passed in and returned. \<^verbatim>\<open>count\<close> adds one to it and stores the new value as the
  index of the message.
\<close>

definition count :: "int \<Rightarrow> advertiser_message \<Rightarrow> int \<times> advertiser_message" where
  "count message_counter self =
     (let message_counter = message_counter + 1
      in (message_counter, self\<lparr>index := Some message_counter\<rparr>))"

text \<open>
  The constructor, lines 51 to 64. The payload and the time of reception are set by the
  constructor of the base class from its arguments. An exception of \<^verbatim>\<open>decode\<close>
  leaves the constructor; the counter has been advanced by then.
\<close>

definition new_message :: "byte list \<Rightarrow> int \<Rightarrow> advertiser_message" where
  "new_message payload rx_time_ms_epoch =
     \<lparr>data_payload = payload, timestamp = rx_time_ms_epoch, adv = [],
      adv_type = None, adv_reserved_field = None, index = None\<rparr>"

definition AdvertiserMessage ::
  "int \<Rightarrow> byte list \<Rightarrow> int \<Rightarrow> int \<times> (error + advertiser_message)" where
  "AdvertiserMessage message_counter payload rx_time_ms_epoch =
     (let self = new_message payload rx_time_ms_epoch;
          (message_counter, self) = count message_counter self
      in (message_counter, decode self))"

text \<open>Messages built one after the other from their payloads and times of reception.\<close>

fun construct_all ::
  "int \<Rightarrow> (byte list \<times> int) list \<Rightarrow> int \<times> (error + advertiser_message) list" where
  "construct_all message_counter [] = (message_counter, [])"
| "construct_all message_counter ((payload, rx) # rest) =
     (let (c1, r) = AdvertiserMessage message_counter payload rx;
          (c2, rs) = construct_all c1 rest
      in (c2, r # rs))"

text \<open>\<^verbatim>\<open>decode\<close> called again and again on one message, stopping at an exception.\<close>

fun decode_times :: "nat \<Rightarrow> advertiser_message \<Rightarrow> error + advertiser_message" where
  "decode_times 0 self = Inr self"
| "decode_times (Suc n) self =
     (case decode self of Inl e \<Rightarrow> Inl e | Inr self' \<Rightarrow> decode_times n self')"

section \<open>The ingestion loop of the inventory test\<close>

text \<open>
  The model follows \<^verbatim>\<open>AdvertiserManager.test_inventory\<close> in \<^verbatim>\<open>test/kpi_adv.py\<close>.
  The class \<^verbatim>\<open>Inventory\<close> is not among the sources at hand: its state is a type
  parameter and its methods are taken as parameters. \<^verbatim>\<open>is_out_of_time\<close> reads the
  clock, so it is given the time of the call.
\<close>

record 'inv inventory_methods =
  set_sequence :: "int \<Rightarrow> 'inv \<Rightarrow> 'inv"
  wait :: "'inv \<Rightarrow> 'inv"
  inventory_add :: "int \<Rightarrow> rat list \<Rightarrow> int list \<Rightarrow> int option \<Rightarrow> 'inv \<Rightarrow> 'inv"
  is_out_of_time :: "int \<Rightarrow> 'inv \<Rightarrow> bool"
  is_complete :: "'inv \<Rightarrow> bool"
  is_otaped :: "'inv \<Rightarrow> bool"
  is_frequency_reached :: "'inv \<Rightarrow> bool"

text \<open>
  The state the loop works on: the counter of the message class, the queue of received
  messages, the optional storage queue, the inventory and the local \<^verbatim>\<open>empty_counter\<close>.
\<close>

record 'inv manager =
  message_counter :: int
  rx_queue :: "advertiser_message list"
  storage_queue :: "advertiser_message list option"
  inventory :: 'inv
  empty_counter :: int
  start_signal :: bool

text \<open>
  What the surroundings do during one pass of the loop: the value of the exit flag when
  the loop condition reads it, the messages that reach the queue before the blocking
  \<^verbatim>\<open>get\<close> gives up, and the clock when \<^verbatim>\<open>is_out_of_time\<close> is asked.
\<close>

record tick =
  exit_is_set :: bool
  arrivals :: "advertiser_message list"
  now :: int

datatype 'inv loop_result = Exited "'inv manager" | Running "'inv manager"

text \<open>Lines 136 to 142: every node of the message is added to the inventory.\<close>

definition add_items :: "'inv inventory_methods \<Rightarrow> adv_dict \<Rightarrow> 'inv \<Rightarrow> 'inv" where
  "add_items ops items inventory0 =
     foldl (\<lambda>i (node_address, details).
              inventory_add ops node_address (rss details) (otap details) (time details) i)
       inventory0 items"

text \<open>
  Lines 111 to 166. A pass of the loop uses up one \<open>tick\<close>; with no tick left the loop
  is still running. \<^verbatim>\<open>queue.Empty\<close> is raised by \<^verbatim>\<open>get\<close> when the queue holds no
  message and none arrives in time, and is caught at once.
\<close>

fun inventory_loop ::
  "'inv inventory_methods \<Rightarrow> tick list \<Rightarrow> 'inv manager \<Rightarrow> 'inv loop_result" where
  "inventory_loop ops [] st = Running st"
| "inventory_loop ops (t # ts) st =
     (if exit_is_set t then Exited st
      else (case rx_queue st @ arrivals t of
              [] \<Rightarrow>
                (let c = empty_counter st + 1;
                     st1 = st\<lparr>empty_counter := (if c > 10 then 0 else c)\<rparr>
                 in if is_out_of_time ops (now t) (inventory st1) then Exited st1
                    else inventory_loop ops ts st1)
            | message # queued \<Rightarrow>
                (let st1 = st\<lparr>rx_queue := queued, empty_counter := 0\<rparr>;
                     st2 = st1\<lparr>storage_queue :=
                                 (case storage_queue st1 of
                                    None \<Rightarrow> None
                                  | Some q \<Rightarrow> Some (q @ [message]))\<rparr>;
                     st3 = st2\<lparr>inventory := add_items ops (adv message) (inventory st2)\<rparr>
                 in if is_out_of_time ops (now t) (inventory st3) then Exited st3
                    else if is_complete ops (inventory st3) then Exited st3
                    else if is_otaped ops (inventory st3) then Exited st3
                    else if is_frequency_reached ops (inventory st3) then Exited st3
                    else inventory_loop ops ts st3)))"

text \<open>Lines 99 to 109: what \<^verbatim>\<open>test_inventory\<close> does before the loop.\<close>

definition start_inventory ::
  "'inv inventory_methods \<Rightarrow> int \<Rightarrow> 'inv manager \<Rightarrow> 'inv manager" where
  "start_inventory ops test_sequence_number st =
     st\<lparr>inventory := wait ops (set_sequence ops test_sequence_number (inventory st)),
        start_signal := True,
        message_counter := 0,
        empty_counter := 0\<rparr>"

definition test_inventory ::
  "'inv inventory_methods \<Rightarrow> int \<Rightarrow> tick list \<Rightarrow> 'inv manager \<Rightarrow> 'inv loop_result" where
  "test_inventory ops test_sequence_number ticks st =
     inventory_loop ops ticks (start_inventory ops test_sequence_number st)"

section \<open>Notions used to state the properties\<close>

text \<open>The number of samples a node holds, over its three lists.\<close>

definition samples :: "node \<Rightarrow> nat" where
  "samples n = length (rss n) + length (otap n) + length (value_list n)"

definition node_count :: "adv_dict \<Rightarrow> int \<Rightarrow> nat" where
  "node_count d a = samples (node_at d a)"

definition total_samples :: "adv_dict \<Rightarrow> nat" where
  "total_samples d = sum_list (map (\<lambda>(a, n). samples n) d)"

text \<open>Little-endian concatenation of bytes: the first byte is the least significant.\<close>

fun le_bytes :: "byte list \<Rightarrow> int" where
  "le_bytes [] = 0"
| "le_bytes (b # bs) = uint b + 256 * le_bytes bs"

text \<open>The chunks of a body that have the full length, in their order.\<close>

definition full_chunks :: "byte list \<Rightarrow> nat \<Rightarrow> byte list list" where
  "full_chunks body n = filter (\<lambda>c. length c = n) (chunker body n)"

text \<open>One pass of the loop of \<^verbatim>\<open>decode\<close> on a chunk of the full length.\<close>

definition decode_record :: "nat \<Rightarrow> int \<Rightarrow> int \<Rightarrow> adv_dict \<Rightarrow> byte list \<Rightarrow> adv_dict" where
  "decode_record address_len ty ts d chunk =
     store_sample ts (record_address address_len (map uint chunk))
       (classify ty (last (map uint chunk))) d"

text \<open>
  What the header of a payload says: the address width and the type of the frame, as
  \<^verbatim>\<open>decode\<close> computes them, the chunks of full length in the body and the addresses
  that \<^verbatim>\<open>decode\<close> computes for them, in the order of the payload.
\<close>

definition frame_width :: "advertiser_message \<Rightarrow> nat" where
  "frame_width m = address_width (uint (data_payload m ! 0))"

definition frame_type :: "advertiser_message \<Rightarrow> int" where
  "frame_type m = uint (data_payload m ! 0) AND 0x7F"

definition frame_records :: "advertiser_message \<Rightarrow> byte list list" where
  "frame_records m = full_chunks (drop 2 (data_payload m)) (frame_width m + 1)"

definition frame_addresses :: "advertiser_message \<Rightarrow> int list" where
  "frame_addresses m = map (\<lambda>c. record_address (frame_width m) (map uint c)) (frame_records m)"

text \<open>
  A node extends another when each of its three lists starts with the list of the other;
  a dictionary extends another when it has every key of the other, with a node that
  extends the other's.
\<close>

definition extends :: "node \<Rightarrow> node \<Rightarrow> bool" where
  "extends n n' \<longleftrightarrow>
     prefix (rss n) (rss n') \<and> prefix (otap n) (otap n') \<and> prefix (value_list n) (value_list n')"

definition adv_extends :: "adv_dict \<Rightarrow> adv_dict \<Rightarrow> bool" where
  "adv_extends d d' \<longleftrightarrow>
     (\<forall>a n. map_of d a = Some n \<longrightarrow> (\<exists>n'. map_of d' a = Some n' \<and> extends n n'))"

text \<open>
  The list a sample goes to, by the truth value of what was decoded: in a frame of the
  RSS type the decoded value is zero for the raw byte 254 only, in a frame of the OTAP
  type for the raw byte 0 only.
\<close>

datatype kind = RSS | OTAP | RAW

definition routed_kind :: "int \<Rightarrow> int \<Rightarrow> kind" where
  "routed_kind ty raw =
     (if ty = message_type_rss \<and> raw \<noteq> 254 then RSS
      else if ty = message_type_otap \<and> raw \<noteq> 0 then OTAP
      else RAW)"

text \<open>One record stored by that rule.\<close>

definition route_record :: "nat \<Rightarrow> int \<Rightarrow> int \<Rightarrow> adv_dict \<Rightarrow> byte list \<Rightarrow> adv_dict" where
  "route_record w ty ts d chunk =
     (let a = record_address w (map uint chunk);
          raw = uint (last chunk);
          n = (node_at d a)\<lparr>time := Some ts\<rparr>
      in AList.update a
           (case routed_kind ty raw of
              RSS \<Rightarrow> n\<lparr>rss := rss n @ [of_int raw / 2 - 127]\<rparr>
            | OTAP \<Rightarrow> n\<lparr>otap := otap n @ [raw]\<rparr>
            | RAW \<Rightarrow> n\<lparr>value_list := value_list n @
                        [if ty = message_type_rss then PyFloat (of_int raw / 2 - 127)
                         else PyInt raw]\<rparr>)
           d)"

text \<open>A message that has been decoded before and holds one node.\<close>

definition seen_message :: advertiser_message where
  "seen_message =
     \<lparr>data_payload = [2, 0, 1, 0, 0, 100, 1, 0, 0, 254], timestamp = 1000,
      adv = [(1, \<lparr>time = Some 5, rss = [-77], otap = [], value_list = []\<rparr>)],
      adv_type = Some 2, adv_reserved_field = Some 0, index = Some 1\<rparr>"

text \<open>The state a run of the loop ends with, or has reached when the ticks are used up.\<close>

fun result_state :: "'inv loop_result \<Rightarrow> 'inv manager" where
  "result_state (Exited st) = st"
| "result_state (Running st) = st"

text \<open>An inventory and a manager to run the loop on: the inventory is the list of the
  addresses added, the deadline is at time 100 and three additions reach the frequency.\<close>

definition sample_methods :: "(int list) inventory_methods" where
  "sample_methods =
     \<lparr>set_sequence = (\<lambda>n i. i), wait = (\<lambda>i. i),
      inventory_add = (\<lambda>a r ot t i. i @ [a]),
      is_out_of_time = (\<lambda>t i. 100 \<le> t),
      is_complete = (\<lambda>i. False), is_otaped = (\<lambda>i. False),
      is_frequency_reached = (\<lambda>i. 3 \<le> length i)\<rparr>"

definition sample_manager :: "(int list) manager" where
  "sample_manager =
     \<lparr>message_counter = 41, rx_queue = [seen_message], storage_queue = None,
      inventory = [], empty_counter = 0, start_signal = False\<rparr>"

text \<open>A tick from its three readings.\<close>

definition tick_of :: "bool \<Rightarrow> advertiser_message list \<Rightarrow> int \<Rightarrow> tick" where
  "tick_of e a n = \<lparr>exit_is_set = e, arrivals = a, now = n\<rparr>"

text \<open>
  The message that the constructor builds as number \<open>i\<close> from the payload
  \<^verbatim>\<open>02 00 | i 00 00 64\<close> received at \<open>ts\<close>, and a manager with an empty storage queue.
\<close>

definition stamped_frame :: "int \<Rightarrow> int \<Rightarrow> advertiser_message" where
  "stamped_frame i ts =
     \<lparr>data_payload = [2, 0, word_of_int i, 0, 0, 100], timestamp = ts,
      adv = [(i, \<lparr>time = Some ts, rss = [-77], otap = [], value_list = []\<rparr>)],
      adv_type = Some 2, adv_reserved_field = Some 0, index = Some i\<rparr>"

definition storing_manager :: "(int list) manager" where
  "storing_manager =
     \<lparr>message_counter = 0, rx_queue = [], storage_queue = Some [],
      inventory = [], empty_counter = 0, start_signal = False\<rparr>"

section \<open>Chunks\<close>

lemma chunker_Nil [simp]: "chunker [] n = []"
  by (simp add: chunker.simps)

lemma chunker_append_full:
  "0 < n \<Longrightarrow> length c = n \<Longrightarrow> chunker (c @ xs) n = c # chunker xs n"
  by (subst chunker.simps) auto

lemma chunker_short:
  "0 < n \<Longrightarrow> xs \<noteq> [] \<Longrightarrow> length xs \<le> n \<Longrightarrow> chunker xs n = [xs]"
  by (subst chunker.simps) (simp)

lemma chunker_length_le: "c \<in> set (chunker xs n) \<Longrightarrow> length c \<le> n"
proof (induction xs n rule: chunker.induct)
  case (1 seq sz)
  then show ?case
    by (subst (asm) (2) chunker.simps) (auto split: if_splits)
qed

lemma chunker_mult:
  "0 < n \<Longrightarrow> length xs = k * n \<Longrightarrow> chunker (xs @ ys) n = chunker xs n @ chunker ys n"
proof (induction k arbitrary: xs)
  case 0
  then show ?case by simp
next
  case (Suc k)
  let ?c = "take n xs" and ?r = "drop n xs"
  have len: "length ?c = n" "length ?r = k * n" using Suc.prems by simp_all
  have xs: "xs = ?c @ ?r" by simp
  have "chunker (xs @ ys) n = chunker (?c @ (?r @ ys)) n"
    by (metis append_assoc append_take_drop_id)
  also have "\<dots> = ?c # chunker (?r @ ys) n"
    using Suc.prems(1) len(1) by (rule chunker_append_full)
  also have "\<dots> = (?c # chunker ?r n) @ chunker ys n"
    using Suc.IH [OF Suc.prems(1) len(2)] by simp
  also have "?c # chunker ?r n = chunker xs n"
    using chunker_append_full [OF Suc.prems(1) len(1), of ?r] by simp
  finally show ?case .
qed

lemma full_chunks_mult:
  "0 < n \<Longrightarrow> length xs = k * n \<Longrightarrow> length (full_chunks xs n) = k \<and> full_chunks xs n = chunker xs n"
proof (induction k arbitrary: xs)
  case 0
  then show ?case by (simp add: full_chunks_def)
next
  case (Suc k)
  let ?c = "take n xs" and ?r = "drop n xs"
  have len: "length ?c = n" "length ?r = k * n" using Suc.prems by simp_all
  have "chunker (?c @ ?r) n = ?c # chunker ?r n"
    using Suc.prems(1) len(1) by (rule chunker_append_full)
  then have "chunker xs n = ?c # chunker ?r n" by simp
  then show ?case using Suc.IH [OF Suc.prems(1) len(2)] len(1)
    by (auto simp: full_chunks_def)
qed

lemma full_chunks_trailing:
  assumes "0 < n" "length xs = k * n" "length ys < n"
  shows "full_chunks (xs @ ys) n = full_chunks xs n"
proof -
  have "chunker ys n = [] \<or> chunker ys n = [ys]"
    using assms(1,3) chunker_short [of n ys] by (cases "ys = []") auto
  then have "full_chunks ys n = []" using assms(3) by (auto simp: full_chunks_def)
  then show ?thesis
    using chunker_mult [OF assms(1,2), of ys] by (simp add: full_chunks_def)
qed

lemma decode_chunks_pure:
  "\<forall>c \<in> set cs. length c \<le> w + 1 \<Longrightarrow>
   decode_chunks w ty ts d cs =
     Inr (foldl (decode_record w ty ts) d (filter (\<lambda>c. length c = w + 1) cs))"
proof (induction cs arbitrary: d)
  case Nil
  then show ?case by simp
next
  case (Cons c cs)
  then show ?case
    by (cases "length c = w + 1") (auto simp: unpack_def decode_record_def)
qed

section \<open>One record, and the loop over the records\<close>

lemma node_at_update [simp]: "node_at (AList.update a n d) b = (if b = a then n else node_at d b)"
  by (simp add: node_at_def update_conv')

lemma store_sample_eq:
  "store_sample ts a (r, ot, v) d =
     AList.update a (append_sample r ot v ((node_at d a)\<lparr>time := Some ts\<rparr>)) d"
proof (cases "map_of d a")
  case None
  then show ?thesis by (simp add: store_sample_def node_at_def update_conv')
next
  case (Some n)
  then show ?thesis by (simp add: store_sample_def node_at_def update_conv')
qed

lemma samples_append_sample [simp]: "samples (append_sample r ot v n) = Suc (samples n)"
  by (simp add: append_sample_def samples_def)

lemma samples_time [simp]: "samples (n\<lparr>time := t\<rparr>) = samples n"
  by (simp add: samples_def)

lemma total_samples_update:
  "total_samples (AList.update a n d) + samples (node_at d a) = total_samples d + samples n"
proof (induction d)
  case Nil
  then show ?case by (simp add: total_samples_def node_at_def new_node_def samples_def)
next
  case (Cons p d)
  then show ?case by (cases p) (auto simp: total_samples_def node_at_def)
qed

lemma total_samples_Nil: "total_samples [] = 0"
  by (simp add: total_samples_def)

lemma total_samples_store:
  "total_samples (store_sample ts a c d) = Suc (total_samples d)"
proof -
  obtain r ot v where c: "c = (r, ot, v)" by (cases c)
  show ?thesis
    using total_samples_update [of a "append_sample r ot v ((node_at d a)\<lparr>time := Some ts\<rparr>)" d]
    by (simp add: c store_sample_eq)
qed

lemma node_count_store:
  "node_count (store_sample ts a c d) b = (if b = a then Suc (node_count d a) else node_count d b)"
proof -
  obtain r ot v where c: "c = (r, ot, v)" by (cases c)
  show ?thesis by (simp add: c store_sample_eq node_count_def)
qed

lemma total_samples_foldl:
  "total_samples (foldl (decode_record w ty ts) d cs) = total_samples d + length cs"
  by (induction cs arbitrary: d) (simp_all add: decode_record_def total_samples_store)

lemma unpack_header:
  "2 \<le> length p \<Longrightarrow> unpack 2 (take 2 p) = Inr [uint (p ! 0), uint (p ! 1)]"
  by (cases p; cases "tl p") (auto simp: unpack_def)

lemma decode_Inr:
  assumes "2 \<le> length (data_payload m)"
  shows "decode m =
     Inr (m\<lparr>adv_type := Some (uint (data_payload m ! 0) AND 0x7F),
            adv_reserved_field := Some (uint (data_payload m ! 1)),
            adv := foldl (decode_record (address_width (uint (data_payload m ! 0)))
                            (uint (data_payload m ! 0) AND 0x7F) (timestamp m))
                     (adv m)
                     (full_chunks (drop 2 (data_payload m))
                        (address_width (uint (data_payload m ! 0)) + 1))\<rparr>)"
proof -
  let ?w = "address_width (uint (data_payload m ! 0))"
  have "\<forall>c \<in> set (chunker (drop 2 (data_payload m)) (?w + 1)). length c \<le> ?w + 1"
    by (simp add: chunker_length_le)
  from decode_chunks_pure [OF this] show ?thesis
    by (simp add: decode_def generic_decode_def unpack_header [OF assms] full_chunks_def Let_def)
qed

lemma decode_Inl:
  assumes "length (data_payload m) < 2"
  shows "decode m = Inl struct_error"
  using assms by (simp add: decode_def generic_decode_def unpack_def)

section \<open>Trailing bytes\<close>

text \<open>
  C1. A payload of two header bytes, \<open>k\<close> chunks of \<open>w + 1\<close> bytes, where \<open>w\<close> is the
  address width of the frame, and \<open>r < w + 1\<close> more bytes is decoded without an error:
  \<open>k\<close> samples are added over the lists of the nodes, and the nodes are those that the
  payload without its last \<open>r\<close> bytes gives.
\<close>

theorem decode_discards_trailing_chunk:
  assumes w: "w = address_width (uint (data_payload m ! 0))"
    and len: "length (data_payload m) = 2 + k * (w + 1) + r"
    and r: "r < w + 1"
  shows "\<exists>m' m''. decode m = Inr m'
           \<and> total_samples (adv m') = total_samples (adv m) + k
           \<and> decode (m\<lparr>data_payload := take (2 + k * (w + 1)) (data_payload m)\<rparr>) = Inr m''
           \<and> adv m'' = adv m'"
proof -
  let ?p = "data_payload m"
  let ?q = "take (2 + k * (w + 1)) ?p"
  let ?xs = "take (k * (w + 1)) (drop 2 ?p)" and ?ys = "drop (k * (w + 1)) (drop 2 ?p)"
  have p2: "2 \<le> length ?p" and q2: "2 \<le> length (data_payload (m\<lparr>data_payload := ?q\<rparr>))"
    using len by simp_all
  have lx: "length ?xs = k * (w + 1)" and ly: "length ?ys < w + 1"
    using len r by simp_all
  have body: "drop 2 ?p = ?xs @ ?ys" by (simp only: append_take_drop_id)
  have pos: "0 < w + 1" by simp
  have fc: "full_chunks (drop 2 ?p) (w + 1) = full_chunks ?xs (w + 1)"
    using full_chunks_trailing [OF pos lx ly] unfolding append_take_drop_id .
  have fl: "length (full_chunks ?xs (w + 1)) = k"
    using full_chunks_mult [OF pos lx] by blast
  have q0: "?q ! 0 = ?p ! 0" by simp
  have qd: "drop 2 ?q = ?xs" by (simp add: drop_take)
  show ?thesis
    unfolding decode_Inr [OF p2] decode_Inr [OF q2]
    using fc fl q0 qd w by (simp add: total_samples_foldl)
qed

theorem decode_discards_trailing_chunk_witness:
  "\<exists>m' m''. decode (new_message [2, 0, 1, 0, 0, 100, 2, 0, 0, 254, 9, 9] 1000) = Inr m'
     \<and> total_samples (adv m') = 2
     \<and> decode (new_message [2, 0, 1, 0, 0, 100, 2, 0, 0, 254] 1000) = Inr m''
     \<and> adv m'' = adv m'"
  using decode_discards_trailing_chunk [of 3 "new_message [2, 0, 1, 0, 0, 100, 2, 0, 0, 254, 9, 9] 1000" 2 2]
  by (simp add: new_message_def address_width_def total_samples_Nil drop_bit_eq_div numeral_2_eq_2)

section \<open>Header and addresses\<close>

lemma or_push_bit_eq_add:
  assumes "0 \<le> x" "x < 2 ^ n"
  shows "(x::int) OR push_bit n k = x + 2 ^ n * k"
proof -
  have x: "take_bit n x = x" using assms by (simp add: take_bit_int_eq_self)
  have "take_bit n x AND push_bit n k = 0"
    by (rule bit_eqI) (auto simp: bit_simps)
  then have "x AND push_bit n k = 0" by (simp only: x)
  from disjunctive_add_eq_or [OF this] show ?thesis by (simp add: push_bit_eq_mult mult.commute)
qed

lemma uint_byte_bounds: "0 \<le> uint (b::byte)" "uint (b::byte) < 256"
  using uint_bounded [of b] by simp_all

lemma le3: "(uint (b0::byte) OR push_bit 8 (uint (b1::byte))) OR push_bit 16 (uint (b2::byte)) =
   uint b0 + 256 * uint b1 + 65536 * uint b2"
proof -
  have 1: "uint b0 OR push_bit 8 (uint b1) = uint b0 + 256 * uint b1"
    using or_push_bit_eq_add [of "uint b0" 8 "uint b1"] uint_byte_bounds [of b0] by simp
  have "uint b0 + 256 * uint b1 < 2 ^ 16" "0 \<le> uint b0 + 256 * uint b1"
    using uint_byte_bounds [of b0] uint_byte_bounds [of b1] by simp_all
  from or_push_bit_eq_add [OF this(2,1), of "uint b2"] show ?thesis by (simp add: 1)
qed

lemma le4: "((uint (b0::byte) OR push_bit 8 (uint (b1::byte))) OR push_bit 16 (uint (b2::byte))) OR push_bit 24 (uint (b3::byte)) =
   uint b0 + 256 * uint b1 + 65536 * uint b2 + 16777216 * uint b3"
proof -
  have "uint b0 + 256 * uint b1 + 65536 * uint b2 < 2 ^ 24" "0 \<le> uint b0 + 256 * uint b1 + 65536 * uint b2"
    using uint_byte_bounds [of b0] uint_byte_bounds [of b1] uint_byte_bounds [of b2] by simp_all
  from or_push_bit_eq_add [OF this(2,1), of "uint b3"] show ?thesis by (simp add: le3)
qed

lemma record_address_3:
  assumes "length c = 4"
  shows "record_address 3 (map uint c) = le_bytes (take 3 c)"
proof -
  from assms obtain b0 b1 b2 v where c: "c = [b0, b1, b2, v]"
    by (auto simp: length_Suc_conv numeral_eq_Suc)
  show ?thesis by (simp add: c record_address_def le3)
qed

lemma record_address_4:
  assumes "length c = 5"
  shows "record_address 4 (map uint c) = le_bytes (take 4 c)"
proof -
  from assms obtain b0 b1 b2 b3 v where c: "c = [b0, b1, b2, b3, v]"
    by (auto simp: length_Suc_conv numeral_eq_Suc)
  show ?thesis by (simp add: c record_address_def le4)
qed

lemma address_width_cases: "address_width h = 3 \<or> address_width h = 4"
  by (simp add: address_width_def)

lemma record_address_le_bytes:
  assumes "length c = address_width h + 1"
  shows "record_address (address_width h) (map uint c) = le_bytes (take (address_width h) c)"
  using address_width_cases [of h] assms record_address_3 [of c] record_address_4 [of c]
  by auto

lemma address_width_bit: "address_width (uint (b::byte)) = (if bit b 7 then 4 else 3)"
proof -
  have "drop_bit 7 (uint b) < 2" "0 \<le> drop_bit 7 (uint b)"
    using uint_byte_bounds [of b] by (simp_all add: drop_bit_eq_div pos_imp_zdiv_nonneg_iff)
  moreover have "\<And>x::int. x < 2 \<Longrightarrow> 0 \<le> x \<Longrightarrow> (x = 1 \<longleftrightarrow> odd x)"
    by presburger
  ultimately have "drop_bit 7 (uint b) = 1 \<longleftrightarrow> odd (drop_bit 7 (uint b))"
    by blast
  also have "\<dots> \<longleftrightarrow> bit (uint b) 7" by (simp add: bit_iff_odd_drop_bit)
  also have "\<dots> \<longleftrightarrow> bit b 7" by (simp add: bit_uint_iff)
  finally show ?thesis by (simp add: address_width_def)
qed

lemma frame_type_word: "uint (b::byte) AND 0x7F = uint (b AND 0x7F)"
  by (simp add: uint_and)

lemma decode_frame:
  assumes "2 \<le> length (data_payload m)"
  shows "decode m =
     Inr (m\<lparr>adv_type := Some (frame_type m),
            adv_reserved_field := Some (uint (data_payload m ! 1)),
            adv := foldl (decode_record (frame_width m) (frame_type m) (timestamp m))
                     (adv m) (frame_records m)\<rparr>)"
  using decode_Inr [OF assms] by (simp add: frame_type_def frame_width_def frame_records_def)

lemma frame_records_length: "c \<in> set (frame_records m) \<Longrightarrow> length c = frame_width m + 1"
  by (simp add: frame_records_def full_chunks_def)

lemma decode_record_le_bytes:
  assumes "length c = address_width h + 1"
  shows "decode_record (address_width h) ty ts d c =
     store_sample ts (le_bytes (take (address_width h) c)) (classify ty (uint (last c))) d"
proof -
  have "c \<noteq> []" using assms by auto
  then show ?thesis
    by (simp add: decode_record_def record_address_le_bytes [OF assms] last_map)
qed

lemma foldl_decode_record_le_bytes:
  assumes "\<forall>c \<in> set cs. length c = address_width h + 1"
  shows "foldl (decode_record (address_width h) ty ts) d cs =
     foldl (\<lambda>d c. store_sample ts (le_bytes (take (address_width h) c))
                     (classify ty (uint (last c))) d) d cs"
  using assms by (induction cs arbitrary: d) (simp_all add: decode_record_le_bytes)

text \<open>
  C5. For a payload of at least two bytes \<^verbatim>\<open>decode\<close> returns a message whose type is
  the first byte AND 0x7F; the address width is 4 if bit 7 of the first byte is set and 3
  otherwise; every record has that width plus one bytes, and the dictionary is the one
  obtained by storing, record after record, a sample under the little-endian value of the
  first width bytes of the record.
\<close>

theorem decode_type_width_addresses:
  assumes "2 \<le> length (data_payload m)"
  shows "\<exists>m'. decode m = Inr m'
     \<and> adv_type m' = Some (uint (data_payload m ! 0 AND 0x7F))
     \<and> frame_width m = (if bit (data_payload m ! 0) 7 then 4 else 3)
     \<and> (\<forall>c \<in> set (frame_records m). length c = frame_width m + 1)
     \<and> adv m' = foldl (\<lambda>d c. store_sample (timestamp m) (le_bytes (take (frame_width m) c))
                                 (classify (frame_type m) (uint (last c))) d)
                  (adv m) (frame_records m)"
proof -
  have len: "\<forall>c \<in> set (frame_records m). length c = frame_width m + 1"
    by (simp add: frame_records_length)
  have "foldl (decode_record (frame_width m) (frame_type m) (timestamp m)) (adv m) (frame_records m)
      = foldl (\<lambda>d c. store_sample (timestamp m) (le_bytes (take (frame_width m) c))
                                 (classify (frame_type m) (uint (last c))) d)
                  (adv m) (frame_records m)"
    using len unfolding frame_width_def by (rule foldl_decode_record_le_bytes)
  then show ?thesis
    using len by (simp add: decode_frame [OF assms] frame_type_def frame_type_word
        frame_width_def address_width_bit)
qed

lemma decode_wide_frame:
  "decode (new_message [0x83, 7, 1, 2, 0, 1, 9, 2, 0, 0, 0, 5, 9, 9] 1000) =
     Inr \<lparr>data_payload = [0x83, 7, 1, 2, 0, 1, 9, 2, 0, 0, 0, 5, 9, 9], timestamp = 1000,
          adv = [(16777729, \<lparr>time = Some 1000, rss = [], otap = [9], value_list = []\<rparr>),
                 (2, \<lparr>time = Some 1000, rss = [], otap = [5], value_list = []\<rparr>)],
          adv_type = Some 3, adv_reserved_field = Some 7, index = None\<rparr>"
  by code_simp

theorem decode_type_width_addresses_witness:
  "\<exists>m'. decode (new_message [0x83, 7, 1, 2, 0, 1, 9, 2, 0, 0, 0, 5, 9, 9] 1000) = Inr m'
     \<and> adv_type m' = Some 3
     \<and> frame_width (new_message [0x83, 7, 1, 2, 0, 1, 9, 2, 0, 0, 0, 5, 9, 9] 1000) = 4
     \<and> adv m' = [(16777729, \<lparr>time = Some 1000, rss = [], otap = [9], value_list = []\<rparr>),
                  (2, \<lparr>time = Some 1000, rss = [], otap = [5], value_list = []\<rparr>)]"
  using decode_type_width_addresses [of "new_message [0x83, 7, 1, 2, 0, 1, 9, 2, 0, 0, 0, 5, 9, 9] 1000"]
  by (simp add: decode_wide_frame) (simp add: new_message_def)

section \<open>Append only\<close>

lemma extends_refl: "extends n n"
  by (simp add: extends_def)

lemma extends_trans: "extends a b \<Longrightarrow> extends b c \<Longrightarrow> extends a c"
  by (auto simp: extends_def intro: prefix_order.trans)

lemma extends_append_sample: "extends n (append_sample r ot v (n\<lparr>time := t\<rparr>))"
  by (simp add: extends_def append_sample_def)

lemma adv_extends_refl: "adv_extends d d"
  by (auto simp: adv_extends_def extends_refl)

lemma adv_extends_trans: "adv_extends a b \<Longrightarrow> adv_extends b c \<Longrightarrow> adv_extends a c"
  unfolding adv_extends_def by (meson extends_trans)

lemma adv_extends_store: "adv_extends d (store_sample ts a c d)"
proof -
  obtain r ot v where c: "c = (r, ot, v)" by (cases c)
  show ?thesis
    unfolding adv_extends_def c store_sample_eq
    by (auto simp: update_conv' node_at_def extends_refl extends_append_sample)
qed

lemma adv_extends_foldl: "adv_extends d (foldl (decode_record w ty ts) d cs)"
proof (induction cs arbitrary: d)
  case Nil
  show ?case by (simp add: adv_extends_refl)
next
  case (Cons c cs)
  have "adv_extends d (decode_record w ty ts d c)"
    by (simp add: decode_record_def adv_extends_store)
  then show ?case using Cons.IH adv_extends_trans by fastforce
qed

lemma time_append_sample [simp]: "time (append_sample r ot v n) = time n"
  by (simp add: append_sample_def)

lemma time_store:
  "time (node_at (store_sample ts a c d) b) = (if b = a then Some ts else time (node_at d b))"
proof -
  obtain r ot v where c: "c = (r, ot, v)" by (cases c)
  show ?thesis by (simp add: c store_sample_eq)
qed

lemma time_foldl:
  "time (node_at (foldl (decode_record w ty ts) d cs) a) =
     (if a \<in> set (map (\<lambda>c. record_address w (map uint c)) cs) then Some ts
      else time (node_at d a))"
proof (induction cs rule: rev_induct)
  case Nil
  show ?case by simp
next
  case (snoc c cs)
  then show ?case by (simp add: decode_record_def time_store)
qed

lemma node_count_foldl:
  "node_count (foldl (decode_record w ty ts) d cs) a =
     node_count d a + count_list (map (\<lambda>c. record_address w (map uint c)) cs) a"
proof (induction cs arbitrary: a rule: rev_induct)
  case Nil
  show ?case by simp
next
  case (snoc c cs)
  then show ?case by (simp add: decode_record_def node_count_store)
qed

text \<open>
  C6. Decoding a payload of at least two bytes keeps every node with all its samples,
  each list only growing at its end; every address of a record of the frame has the
  time of reception of the frame as its time afterwards, whatever list the sample went
  to; and the number of samples of an address grows by the number of records of the
  frame with that address.
\<close>

theorem decode_appends_and_stamps:
  assumes "2 \<le> length (data_payload m)"
  shows "\<exists>m'. decode m = Inr m'
     \<and> adv_extends (adv m) (adv m')
     \<and> (\<forall>a \<in> set (frame_addresses m). time (node_at (adv m') a) = Some (timestamp m))
     \<and> (\<forall>a. node_count (adv m') a = node_count (adv m) a + count_list (frame_addresses m) a)"
  by (simp add: decode_frame [OF assms] adv_extends_foldl time_foldl node_count_foldl
      frame_addresses_def)

lemma frame_addresses_seen_message: "frame_addresses seen_message = [1, 1]"
  by code_simp

theorem decode_appends_and_stamps_witness:
  "\<exists>m'. decode seen_message = Inr m'
     \<and> adv_extends (adv seen_message) (adv m')
     \<and> time (node_at (adv m') 1) = Some 1000
     \<and> node_count (adv seen_message) 1 = 1
     \<and> node_count (adv m') 1 = 3"
proof -
  have "2 \<le> length (data_payload seen_message)" by (simp add: seen_message_def)
  from decode_appends_and_stamps [OF this] obtain m' where
    d: "decode seen_message = Inr m'" and
    e: "adv_extends (adv seen_message) (adv m')" and
    t: "\<forall>a \<in> set (frame_addresses seen_message).
          time (node_at (adv m') a) = Some (timestamp seen_message)" and
    c: "\<forall>a. node_count (adv m') a =
          node_count (adv seen_message) a + count_list (frame_addresses seen_message) a"
    by blast
  have n: "node_count (adv seen_message) 1 = 1"
    by (simp add: seen_message_def node_count_def node_at_def samples_def)
  have "time (node_at (adv m') 1) = Some 1000"
    using t by (simp add: frame_addresses_seen_message) (simp add: seen_message_def)
  moreover have "node_count (adv m') 1 = 3"
    using c n by (simp add: frame_addresses_seen_message)
  ultimately show ?thesis using d e n by blast
qed

section \<open>Which list a sample goes to\<close>

lemma half_rss_zero: "of_int raw / (2::rat) - 127 = 0 \<longleftrightarrow> raw = 254"
proof -
  have "of_int raw / (2::rat) - 127 = 0 \<longleftrightarrow> (of_int raw :: rat) = of_int 254"
    by (simp add: field_simps)
  also have "\<dots> \<longleftrightarrow> raw = 254" by (simp only: of_int_eq_iff)
  finally show ?thesis .
qed

lemma classify_route:
  "(case classify ty raw of (r, ot, v) \<Rightarrow> append_sample r ot v n) =
     (case routed_kind ty raw of
        RSS \<Rightarrow> n\<lparr>rss := rss n @ [of_int raw / 2 - 127]\<rparr>
      | OTAP \<Rightarrow> n\<lparr>otap := otap n @ [raw]\<rparr>
      | RAW \<Rightarrow> n\<lparr>value_list := value_list n @
                  [if ty = message_type_rss then PyFloat (of_int raw / 2 - 127)
                   else PyInt raw]\<rparr>)"
  using half_rss_zero [of raw]
  by (simp add: classify_def append_sample_def routed_kind_def Let_def
      message_type_rss_def message_type_otap_def)

lemma store_sample_case:
  "store_sample ts a c d =
     AList.update a (case c of (r, ot, v) \<Rightarrow>
                       append_sample r ot v ((node_at d a)\<lparr>time := Some ts\<rparr>)) d"
  by (cases c) (simp add: store_sample_eq)

lemma decode_record_route:
  assumes "chunk \<noteq> []"
  shows "decode_record w ty ts d chunk = route_record w ty ts d chunk"
  unfolding decode_record_def route_record_def store_sample_case Let_def
  by (simp only: classify_route last_map [OF assms])

lemma foldl_decode_record_route:
  "\<forall>c \<in> set cs. c \<noteq> [] \<Longrightarrow>
   foldl (decode_record w ty ts) d cs = foldl (route_record w ty ts) d cs"
  by (induction cs arbitrary: d) (simp_all add: decode_record_route)

lemma frame_records_nonempty: "c \<in> set (frame_records m) \<Longrightarrow> c \<noteq> []"
  using frame_records_length [of c m] by auto

text \<open>
  C9. The list a sample goes to is decided by the truth value of the decoded value: a
  payload of at least two bytes is decoded to the dictionary obtained by storing every
  record with \<open>route_record\<close>, which puts a record of an RSS frame with raw byte 254
  (decoded value 0.0) and a record of an OTAP frame with raw byte 0 into the list
  \<^verbatim>\<open>value\<close>, and only the other records of such frames into \<^verbatim>\<open>rss\<close> and
  \<^verbatim>\<open>otap\<close>.
\<close>

theorem routing_by_truth_value:
  assumes "2 \<le> length (data_payload m)"
  shows "\<exists>m'. decode m = Inr m'
     \<and> adv m' = foldl (route_record (frame_width m) (frame_type m) (timestamp m))
                  (adv m) (frame_records m)"
proof -
  have "\<forall>c \<in> set (frame_records m). c \<noteq> []"
    by (simp add: frame_records_nonempty)
  then show ?thesis
    by (simp add: decode_frame [OF assms] foldl_decode_record_route)
qed

lemma decode_zero_frame:
  "decode (new_message [2, 0, 1, 0, 0, 254, 2, 0, 0, 100, 1, 0, 0, 252] 1000) =
     Inr \<lparr>data_payload = [2, 0, 1, 0, 0, 254, 2, 0, 0, 100, 1, 0, 0, 252], timestamp = 1000,
          adv = [(1, \<lparr>time = Some 1000, rss = [-1], otap = [], value_list = [PyFloat 0]\<rparr>),
                 (2, \<lparr>time = Some 1000, rss = [-77], otap = [], value_list = []\<rparr>)],
          adv_type = Some 2, adv_reserved_field = Some 0, index = None\<rparr>"
  by code_simp

theorem routing_by_truth_value_witness:
  "\<exists>m'. decode (new_message [2, 0, 1, 0, 0, 254, 2, 0, 0, 100, 1, 0, 0, 252] 1000) = Inr m'
     \<and> adv m' = foldl (route_record 3 2 1000) []
                  [[1, 0, 0, 254], [2, 0, 0, 100], [1, 0, 0, 252]]
     \<and> adv m' = [(1, \<lparr>time = Some 1000, rss = [-1], otap = [], value_list = [PyFloat 0]\<rparr>),
                  (2, \<lparr>time = Some 1000, rss = [-77], otap = [], value_list = []\<rparr>)]"
proof -
  let ?m = "new_message [2, 0, 1, 0, 0, 254, 2, 0, 0, 100, 1, 0, 0, 252] 1000"
  have "2 \<le> length (data_payload ?m)" by (simp add: new_message_def)
  from routing_by_truth_value [OF this] obtain m' where
    d: "decode ?m = Inr m'" and
    r: "adv m' = foldl (route_record (frame_width ?m) (frame_type ?m) (timestamp ?m))
                  (adv ?m) (frame_records ?m)"
    by blast
  have "frame_width ?m = 3" "frame_type ?m = 2" "timestamp ?m = 1000" "adv ?m = []"
    "frame_records ?m = [[1, 0, 0, 254], [2, 0, 0, 100], [1, 0, 0, 252]]"
    by code_simp+
  with r have "adv m' = foldl (route_record 3 2 1000) []
                  [[1, 0, 0, 254], [2, 0, 0, 100], [1, 0, 0, 252]]" by simp
  then show ?thesis using d decode_zero_frame by auto
qed

section \<open>Decoding a message again\<close>

lemma decode_keeps_payload:
  assumes "decode m = Inr m'"
  shows "data_payload m' = data_payload m" "timestamp m' = timestamp m"
proof -
  have "2 \<le> length (data_payload m)"
  proof (rule ccontr)
    assume "\<not> 2 \<le> length (data_payload m)"
    then have "decode m = Inl struct_error" by (simp add: decode_Inl)
    with assms show False by simp
  qed
  from decode_frame [OF this] assms show "data_payload m' = data_payload m" "timestamp m' = timestamp m"
    by auto
qed

lemma frame_of_payload:
  assumes "data_payload m' = data_payload m"
  shows "frame_records m' = frame_records m" "frame_addresses m' = frame_addresses m"
  using assms by (simp_all add: frame_records_def frame_addresses_def frame_width_def)

lemma decode_counts:
  assumes "2 \<le> length (data_payload m)"
  shows "\<exists>m'. decode m = Inr m' \<and> data_payload m' = data_payload m
     \<and> (\<forall>a. node_count (adv m') a = node_count (adv m) a + count_list (frame_addresses m) a)
     \<and> total_samples (adv m') = total_samples (adv m) + length (frame_records m)"
  by (simp add: decode_frame [OF assms] node_count_foldl total_samples_foldl frame_addresses_def)

lemma decode_times_counts:
  assumes "2 \<le> length (data_payload m)"
  shows "\<exists>m'. decode_times n m = Inr m' \<and> data_payload m' = data_payload m
     \<and> (\<forall>a. node_count (adv m') a = node_count (adv m) a + n * count_list (frame_addresses m) a)
     \<and> total_samples (adv m') = total_samples (adv m) + n * length (frame_records m)"
  using assms
proof (induction n arbitrary: m)
  case 0
  then show ?case by simp
next
  case (Suc n)
  from decode_counts [OF Suc.prems] obtain m1 where
    d: "decode m = Inr m1" and p: "data_payload m1 = data_payload m" and
    c: "\<forall>a. node_count (adv m1) a = node_count (adv m) a + count_list (frame_addresses m) a" and
    t: "total_samples (adv m1) = total_samples (adv m) + length (frame_records m)"
    by blast
  have "2 \<le> length (data_payload m1)" using p Suc.prems by simp
  from Suc.IH [OF this] obtain m' where
    d': "decode_times n m1 = Inr m'" and p': "data_payload m' = data_payload m1" and
    c': "\<forall>a. node_count (adv m') a = node_count (adv m1) a + n * count_list (frame_addresses m1) a" and
    t': "total_samples (adv m') = total_samples (adv m1) + n * length (frame_records m1)"
    by blast
  show ?case
    using d d' p p' c c' t t' frame_of_payload [OF p] by simp
qed

lemma AdvertiserMessage_eq:
  "AdvertiserMessage c payload rx =
     (c + 1, decode ((new_message payload rx)\<lparr>index := Some (c + 1)\<rparr>))"
  by (simp add: AdvertiserMessage_def count_def Let_def)

lemma node_count_Nil: "node_count [] a = 0"
  by (simp add: node_count_def node_at_def new_node_def samples_def)

text \<open>
  C10. \<^verbatim>\<open>decode\<close> accumulates. The constructor decodes once: a message built from a
  payload of at least two bytes holds, for every address, as many samples as the frame
  has records with that address. After \<open>n\<close> more calls of \<^verbatim>\<open>decode\<close> on the message
  every address holds \<open>n + 1\<close> times as many, and the message holds \<open>n + 1\<close> samples for
  every full chunk.
\<close>

theorem decode_accumulates:
  assumes "2 \<le> length payload"
  shows "\<exists>m m'. AdvertiserMessage c payload rx = (c + 1, Inr m)
     \<and> decode_times n m = Inr m'
     \<and> (\<forall>a. node_count (adv m) a = count_list (frame_addresses m) a)
     \<and> (\<forall>a. node_count (adv m') a = (n + 1) * count_list (frame_addresses m) a)
     \<and> total_samples (adv m) = length (frame_records m)
     \<and> total_samples (adv m') = (n + 1) * length (frame_records m)"
proof -
  let ?m0 = "(new_message payload rx)\<lparr>index := Some (c + 1)\<rparr>"
  have p0: "2 \<le> length (data_payload ?m0)" and a0: "adv ?m0 = []"
    using assms by (simp_all add: new_message_def)
  from decode_counts [OF p0] obtain m where
    d: "decode ?m0 = Inr m" and p: "data_payload m = data_payload ?m0" and
    c: "\<forall>a. node_count (adv m) a = node_count (adv ?m0) a + count_list (frame_addresses ?m0) a" and
    t: "total_samples (adv m) = total_samples (adv ?m0) + length (frame_records ?m0)"
    by blast
  have "2 \<le> length (data_payload m)" using p p0 by simp
  from decode_times_counts [OF this, of n] obtain m' where
    d': "decode_times n m = Inr m'" and
    c': "\<forall>a. node_count (adv m') a = node_count (adv m) a + n * count_list (frame_addresses m) a" and
    t': "total_samples (adv m') = total_samples (adv m) + n * length (frame_records m)"
    by blast
  have "AdvertiserMessage c payload rx = (c + 1, Inr m)"
    by (simp add: AdvertiserMessage_eq d)
  then show ?thesis
    using d' c c' t t' frame_of_payload [OF p] a0
    by (simp add: node_count_Nil total_samples_Nil)
qed

theorem decode_accumulates_witness:
  "\<exists>m m'. AdvertiserMessage 0 [2, 0, 1, 0, 0, 100, 1, 0, 0, 102, 7, 0, 0, 254] 1000 = (1, Inr m)
     \<and> decode_times 2 m = Inr m'
     \<and> node_count (adv m) 1 = 2 \<and> node_count (adv m') 1 = 6
     \<and> node_count (adv m) 7 = 1 \<and> node_count (adv m') 7 = 3
     \<and> total_samples (adv m') = 9"
proof -
  let ?p = "[2, 0, 1, 0, 0, 100, 1, 0, 0, 102, 7, 0, 0, 254] :: byte list"
  have "2 \<le> length ?p" by simp
  from decode_accumulates [OF this, of 0 1000 2] obtain m m' where
    a: "AdvertiserMessage 0 ?p 1000 = (1, Inr m)" and d: "decode_times 2 m = Inr m'" and
    c: "\<forall>a. node_count (adv m) a = count_list (frame_addresses m) a" and
    c': "\<forall>a. node_count (adv m') a = (2 + 1) * count_list (frame_addresses m) a" and
    t': "total_samples (adv m') = (2 + 1) * length (frame_records m)"
    by auto
  have "decode ((new_message ?p 1000)\<lparr>index := Some 1\<rparr>) = Inr m"
    using a by (simp add: AdvertiserMessage_eq)
  then have "data_payload m = ?p"
    using decode_keeps_payload(1) by (fastforce simp: new_message_def)
  then have "frame_records m = frame_records (new_message ?p 1000)"
    "frame_addresses m = frame_addresses (new_message ?p 1000)"
    by (simp_all add: frame_of_payload new_message_def)
  moreover have "frame_addresses (new_message ?p 1000) = [1, 1, 7]"
    "length (frame_records (new_message ?p 1000)) = 3"
    by code_simp+
  ultimately show ?thesis using a d c c' t' by auto
qed

section \<open>A payload shorter than its header\<close>

text \<open>
  C3, as stated, fails: the exception that \<^verbatim>\<open>decode\<close> raises on a payload of one byte
  is \<^verbatim>\<open>struct.error\<close>, raised by unpacking the header, and no \<^verbatim>\<open>DecodeError\<close>.
\<close>

theorem short_header_not_DecodeError:
  "decode (new_message [2] 1000) = Inl (Raise ''struct.error'')
   \<and> decode (new_message [2] 1000) \<noteq> Inl (Raise ''DecodeError'')"
  by (simp add: decode_Inl new_message_def struct_error_def)

text \<open>
  C3, amended. On a payload shorter than two bytes \<^verbatim>\<open>decode\<close> raises
  \<^verbatim>\<open>struct.error\<close>, and so does the constructor, which has advanced the counter by
  then; on a payload of at least two bytes neither of them raises.
\<close>

theorem short_header_raises_struct_error:
  "(length (data_payload m) < 2 \<longrightarrow>
      decode m = Inl struct_error
      \<and> AdvertiserMessage c (data_payload m) rx = (c + 1, Inl struct_error))
   \<and> (2 \<le> length (data_payload m) \<longrightarrow>
      (\<exists>m'. decode m = Inr m') \<and> (\<exists>m'. AdvertiserMessage c (data_payload m) rx = (c + 1, Inr m')))"
proof (intro conjI impI)
  assume s: "length (data_payload m) < 2"
  then show "decode m = Inl struct_error" by (rule decode_Inl)
  have "length (data_payload ((new_message (data_payload m) rx)\<lparr>index := Some (c + 1)\<rparr>)) < 2"
    using s by (simp add: new_message_def)
  then show "AdvertiserMessage c (data_payload m) rx = (c + 1, Inl struct_error)"
    by (simp add: AdvertiserMessage_eq decode_Inl)
next
  assume l: "2 \<le> length (data_payload m)"
  then show "\<exists>m'. decode m = Inr m'" by (simp add: decode_frame)
  have "2 \<le> length (data_payload ((new_message (data_payload m) rx)\<lparr>index := Some (c + 1)\<rparr>))"
    using l by (simp add: new_message_def)
  then show "\<exists>m'. AdvertiserMessage c (data_payload m) rx = (c + 1, Inr m')"
    by (simp add: AdvertiserMessage_eq decode_frame)
qed

theorem short_header_raises_struct_error_witness:
  "decode (new_message [2] 1000) = Inl struct_error
   \<and> AdvertiserMessage 0 [2] 1000 = (1, Inl struct_error)
   \<and> (\<exists>m'. decode (new_message [2, 0] 1000) = Inr m')
   \<and> (\<exists>m'. AdvertiserMessage 0 [2, 0] 1000 = (1, Inr m'))"
  using short_header_raises_struct_error [of "new_message [2] 1000" 0 1000]
    short_header_raises_struct_error [of "new_message [2, 0] 1000" 0 1000]
  by (simp add: new_message_def)

section \<open>Zero samples\<close>

text \<open>
  C4. The frame of the RSS type with one record, for address 1 with raw byte 254: the
  decoded value 0.0 is stored in the list \<^verbatim>\<open>value\<close> of the node, and its list
  \<^verbatim>\<open>rss\<close> stays empty.
\<close>

theorem rss_254_stored_in_value_list:
  "decode (new_message [2, 0, 1, 0, 0, 254] 1000) =
     Inr \<lparr>data_payload = [2, 0, 1, 0, 0, 254], timestamp = 1000,
          adv = [(1, \<lparr>time = Some 1000, rss = [], otap = [], value_list = [PyFloat 0]\<rparr>)],
          adv_type = Some 2, adv_reserved_field = Some 0, index = None\<rparr>"
  by code_simp

text \<open>
  C2. Two records of one frame go to lists of different kinds: in the frame of the RSS
  type the record with raw byte 254 goes to \<^verbatim>\<open>value\<close> and the record with raw byte
  100 to \<^verbatim>\<open>rss\<close>; in the frame of the OTAP type the record with raw byte 0 goes to
  \<^verbatim>\<open>value\<close> and the record with raw byte 5 to \<^verbatim>\<open>otap\<close>.
\<close>

theorem records_of_one_frame_in_different_lists:
  "decode (new_message [2, 0, 1, 0, 0, 254, 2, 0, 0, 100] 1000) =
     Inr \<lparr>data_payload = [2, 0, 1, 0, 0, 254, 2, 0, 0, 100], timestamp = 1000,
          adv = [(1, \<lparr>time = Some 1000, rss = [], otap = [], value_list = [PyFloat 0]\<rparr>),
                 (2, \<lparr>time = Some 1000, rss = [-77], otap = [], value_list = []\<rparr>)],
          adv_type = Some 2, adv_reserved_field = Some 0, index = None\<rparr>
   \<and> decode (new_message [3, 0, 1, 0, 0, 0, 2, 0, 0, 5] 1000) =
     Inr \<lparr>data_payload = [3, 0, 1, 0, 0, 0, 2, 0, 0, 5], timestamp = 1000,
          adv = [(1, \<lparr>time = Some 1000, rss = [], otap = [], value_list = [PyInt 0]\<rparr>),
                 (2, \<lparr>time = Some 1000, rss = [], otap = [5], value_list = []\<rparr>)],
          adv_type = Some 3, adv_reserved_field = Some 0, index = None\<rparr>"
  by code_simp

section \<open>The index of a message\<close>

lemma construct_all_indices:
  "construct_all c ps = (c', rs) \<Longrightarrow>
   c' = c + int (length ps) \<and> length rs = length ps
   \<and> (\<forall>i < length ps.
        (2 \<le> length (fst (ps ! i)) \<longrightarrow>
           (\<exists>m. rs ! i = Inr m \<and> index m = Some (c + int i + 1)))
        \<and> (length (fst (ps ! i)) < 2 \<longrightarrow> rs ! i = Inl struct_error))"
proof (induction ps arbitrary: c c' rs)
  case Nil
  then show ?case by simp
next
  case (Cons p ps)
  obtain payload rx where p: "p = (payload, rx)" by (cases p)
  obtain c2 rs2 where r: "construct_all (c + 1) ps = (c2, rs2)" by (cases "construct_all (c + 1) ps")
  from Cons.prems have c': "c' = c2" and rs: "rs = decode ((new_message payload rx)\<lparr>index := Some (c + 1)\<rparr>) # rs2"
    by (simp_all add: p r AdvertiserMessage_eq)
  note IH = Cons.IH [OF r]
  have head: "(2 \<le> length payload \<longrightarrow>
           (\<exists>m. decode ((new_message payload rx)\<lparr>index := Some (c + 1)\<rparr>) = Inr m \<and> index m = Some (c + 1)))
        \<and> (length payload < 2 \<longrightarrow> decode ((new_message payload rx)\<lparr>index := Some (c + 1)\<rparr>) = Inl struct_error)"
    by (simp add: decode_frame decode_Inl new_message_def)
  show ?case
  proof (intro conjI allI impI)
    show "c' = c + int (length (p # ps))" using IH c' by simp
    show "length rs = length (p # ps)" using IH rs by simp
  next
    fix i assume "i < length (p # ps)" "2 \<le> length (fst ((p # ps) ! i))"
    then show "\<exists>m. rs ! i = Inr m \<and> index m = Some (c + int i + 1)"
      using IH head by (cases i) (auto simp: rs p)
  next
    fix i assume "i < length (p # ps)" "length (fst ((p # ps) ! i)) < 2"
    then show "rs ! i = Inl struct_error"
      using IH head by (cases i) (auto simp: rs p)
  qed
qed

lemma inventory_loop_counter:
  "message_counter (result_state (inventory_loop ops ticks st)) = message_counter st"
  by (induction ticks arbitrary: st) (auto simp: Let_def split: list.splits)

text \<open>
  C7. \<^verbatim>\<open>count\<close> adds one to the counter and stamps the message with the new value,
  and \<^verbatim>\<open>test_inventory\<close> sets the counter to 0 before its loop. But the loop
  constructs no message: it takes from the queue the messages that the process which
  receives them from the network (\<^verbatim>\<open>main\<close> builds it as \<^verbatim>\<open>mqtt\<close>) has constructed and
  stamped with the counter of its own, which line 108 does not reach. Four messages
  constructed one after the other there get the indices 1 to 4. The first run of the
  inventory takes three of them and ends; the second run takes the fourth, which has
  the index 4 and not 1, while the counter of the manager is 0 after either run.
\<close>

theorem second_run_frame_keeps_its_index:
  "construct_all 0 [([2, 0, 1, 0, 0, 100], 5), ([2, 0, 2, 0, 0, 100], 6),
                    ([2, 0, 3, 0, 0, 100], 7), ([2, 0, 4, 0, 0, 100], 25)] =
     (4, [Inr (stamped_frame 1 5), Inr (stamped_frame 2 6),
          Inr (stamped_frame 3 7), Inr (stamped_frame 4 25)])
   \<and> test_inventory sample_methods 0
       [tick_of False [stamped_frame 1 5] 10, tick_of False [stamped_frame 2 6] 11,
        tick_of False [stamped_frame 3 7] 12]
       storing_manager =
     Exited (storing_manager
       \<lparr>storage_queue := Some [stamped_frame 1 5, stamped_frame 2 6, stamped_frame 3 7],
        inventory := [1, 2, 3], start_signal := True\<rparr>)
   \<and> test_inventory sample_methods 1 [tick_of False [stamped_frame 4 25] 30]
       (storing_manager
         \<lparr>storage_queue := Some [stamped_frame 1 5, stamped_frame 2 6, stamped_frame 3 7],
          inventory := [1, 2, 3], start_signal := True\<rparr>) =
     Exited (storing_manager
       \<lparr>storage_queue := Some [stamped_frame 1 5, stamped_frame 2 6, stamped_frame 3 7,
                                 stamped_frame 4 25],
        inventory := [1, 2, 3, 4], start_signal := True\<rparr>)
   \<and> message_counter storing_manager = 0
   \<and> index (stamped_frame 4 25) = Some 4"
proof (intro conjI)
  show "construct_all 0 [([2, 0, 1, 0, 0, 100], 5), ([2, 0, 2, 0, 0, 100], 6),
                    ([2, 0, 3, 0, 0, 100], 7), ([2, 0, 4, 0, 0, 100], 25)] =
     (4, [Inr (stamped_frame 1 5), Inr (stamped_frame 2 6),
          Inr (stamped_frame 3 7), Inr (stamped_frame 4 25)])"
    by code_simp
qed (simp_all add: test_inventory_def start_inventory_def sample_methods_def
      storing_manager_def tick_of_def add_items_def stamped_frame_def)

section \<open>The loop: empty queue and exit flag\<close>

lemma inventory_loop_append:
  "inventory_loop ops before st = Running st1 \<Longrightarrow>
   inventory_loop ops (before @ after) st = inventory_loop ops after st1"
  by (induction before arbitrary: st) (auto simp: Let_def split: list.splits if_splits)

lemma quiet_run:
  assumes "rx_queue s = []"
    and "\<forall>t \<in> set quiet. \<not> exit_is_set t \<and> arrivals t = []
           \<and> \<not> is_out_of_time ops (now t) (inventory s)"
  shows "\<exists>c. inventory_loop ops quiet s = Running (s\<lparr>empty_counter := c\<rparr>)"
  using assms
proof (induction quiet arbitrary: s)
  case Nil
  have "s = s\<lparr>empty_counter := empty_counter s\<rparr>" by simp
  then show ?case by (metis inventory_loop.simps(1))
next
  case (Cons t quiet)
  let ?s = "s\<lparr>empty_counter := (if empty_counter s + 1 > 10 then 0 else empty_counter s + 1)\<rparr>"
  have step: "inventory_loop ops (t # quiet) s = inventory_loop ops quiet ?s"
    using Cons.prems by (simp add: Let_def)
  have "rx_queue ?s = []" using Cons.prems(1) by simp
  moreover have "\<forall>t \<in> set quiet. \<not> exit_is_set t \<and> arrivals t = []
           \<and> \<not> is_out_of_time ops (now t) (inventory ?s)"
    using Cons.prems(2) by simp
  ultimately obtain c where c: "inventory_loop ops quiet ?s = Running (?s\<lparr>empty_counter := c\<rparr>)"
    using Cons.IH by blast
  have "inventory_loop ops (t # quiet) s = Running (s\<lparr>empty_counter := c\<rparr>)"
    unfolding step c by simp
  then show ?case by blast
qed

text \<open>
  C8. Let the loop have run over some ticks and be running still. If the exit flag is
  set when the loop condition reads it next, the loop ends in the state it is in:
  nothing is taken from the queue and nothing is added to the inventory. If the flag is
  not set and \<^verbatim>\<open>get\<close> finds no message, no exception leaves the loop: the loop ends
  if \<^verbatim>\<open>is_out_of_time\<close> holds and goes on with the next pass otherwise, with only
  \<^verbatim>\<open>empty_counter\<close> changed. Over any number of passes in which the flag is not set,
  no message arrives and the time is not out, the loop keeps running.
\<close>

theorem empty_queue_and_exit_flag:
  assumes "inventory_loop ops before st = Running st1"
  shows "(exit_is_set t \<longrightarrow> inventory_loop ops (before @ t # after) st = Exited st1)
   \<and> (\<not> exit_is_set t \<and> rx_queue st1 @ arrivals t = [] \<longrightarrow>
        (let c = empty_counter st1 + 1;
             st2 = st1\<lparr>empty_counter := (if c > 10 then 0 else c)\<rparr>
         in inventory_loop ops (before @ t # after) st =
              (if is_out_of_time ops (now t) (inventory st2) then Exited st2
               else inventory_loop ops after st2)))
   \<and> (rx_queue st1 = []
        \<and> (\<forall>q \<in> set quiet. \<not> exit_is_set q \<and> arrivals q = []
               \<and> \<not> is_out_of_time ops (now q) (inventory st1)) \<longrightarrow>
        (\<exists>c. inventory_loop ops (before @ quiet) st = Running (st1\<lparr>empty_counter := c\<rparr>)))"
  using quiet_run [of st1 quiet ops]
  by (simp add: inventory_loop_append [OF assms] Let_def)

lemma sample_run:
  "inventory_loop sample_methods [tick_of False [] 1] sample_manager =
     Running (sample_manager\<lparr>rx_queue := [], inventory := [1]\<rparr>)"
  by (simp add: sample_methods_def sample_manager_def tick_of_def add_items_def seen_message_def)

theorem empty_queue_and_exit_flag_witness:
  "inventory_loop sample_methods [tick_of False [] 1, tick_of True [seen_message] 2, tick_of False [] 3] sample_manager
     = Exited (sample_manager\<lparr>rx_queue := [], inventory := [1]\<rparr>)
   \<and> inventory_loop sample_methods [tick_of False [] 1, tick_of False [] 100, tick_of False [] 101] sample_manager
     = Exited (sample_manager\<lparr>rx_queue := [], inventory := [1], empty_counter := 1\<rparr>)
   \<and> inventory_loop sample_methods [tick_of False [] 1, tick_of False [] 2] sample_manager
     = Running (sample_manager\<lparr>rx_queue := [], inventory := [1], empty_counter := 1\<rparr>)
   \<and> (\<exists>c. inventory_loop sample_methods
            [tick_of False [] 1, tick_of False [] 2, tick_of False [] 3, tick_of False [] 4]
            sample_manager
          = Running (sample_manager\<lparr>rx_queue := [], inventory := [1], empty_counter := c\<rparr>))"
  using empty_queue_and_exit_flag [OF sample_run, of "tick_of True [seen_message] 2" "[tick_of False [] 3]" "[]"]
    empty_queue_and_exit_flag [OF sample_run, of "tick_of False [] 100" "[tick_of False [] 101]" "[]"]
    empty_queue_and_exit_flag [OF sample_run, of "tick_of False [] 2" "[]"
       "[tick_of False [] 2, tick_of False [] 3, tick_of False [] 4]"]
  by (simp add: tick_of_def sample_methods_def sample_manager_def)


end
